theory Spec2Isabelle
  imports Complex_Main "HOL-Library.AList"
begin

section \<open>Numbers\<close>

text \<open>
  Rates and the change percentage are \<^verbatim>\<open>float64\<close> in the source. A rate is modelled as
  a real number, and every arithmetic operation of the source rounds its exact result
  with a rounding function that is a parameter of the model: \<open>exact\<close> is arithmetic
  over the reals, \<open>float64\<close> (further down) is IEEE 754 binary64 round-to-nearest-even.
  Results that are no finite number in Go (a quotient by zero, an overflow) are outside
  the model: no statement below evaluates the arithmetic there.
\<close>

type_synonym rounding = "real \<Rightarrow> real"

definition exact :: rounding where
  "exact x = x"

definition roundHalfEven :: "real \<Rightarrow> int" where
  "roundHalfEven x =
     (let n = \<lfloor>x\<rfloor>; d = x - of_int n
      in if d < 1 / 2 then n else if 1 / 2 < d then n + 1 else if even n then n else n + 1)"

text \<open>
  The binary64 number nearest to a real: 53 significant bits above the subnormal range,
  multiples of \<open>2 powi - 1074\<close> inside it, ties to the even significand. It is the
  rounding of Go for every real whose rounded magnitude is below \<open>2 ^ 1024\<close>.
\<close>

definition float64 :: rounding where
  "float64 x =
     (if x = 0 then 0
      else (let e = max \<lfloor>log 2 \<bar>x\<bar>\<rfloor> (- 1022) - 52
            in of_int (roundHalfEven (x / 2 powi e)) * 2 powi e))"

text \<open>
  The smallest normal binary64 number, and the magnitude from which on a rounded result
  is infinite.
\<close>

definition minNormal :: real where
  "minNormal = 2 powi (- 1022)"

definition overflowThreshold :: real where
  "overflowThreshold = 2 powi 1024"

type_synonym error = string

section \<open>ratelimiter.go\<close>

subsection \<open>The bucket of golang.org/x/time/rate\<close>

text \<open>
  \<^verbatim>\<open>rate.Limiter\<close> is a library type. The package reads and writes its refill rate and
  its burst; its token count and its clock stay inside the library. What
  \<^verbatim>\<open>rate.Limiter.Wait\<close> returns (nil, or the error of a cancelled context, a deadline too
  near or a burst below one) is decided by that hidden state, so it is a parameter
  of the model: a function of the context and the bucket, one for each moment of a call.
\<close>

record rate_Limiter =
  limit :: real
  burst :: int

definition rate_NewLimiter :: "real \<Rightarrow> int \<Rightarrow> rate_Limiter" where
  "rate_NewLimiter r b = \<lparr>limit = r, burst = b\<rparr>"

datatype "context" = Context (ctxErr: "error option")

type_synonym limiterWait = "context \<Rightarrow> rate_Limiter \<Rightarrow> error option"

subsection \<open>RateLimiter\<close>

text \<open>
  A \<^verbatim>\<open>*RateLimiter\<close> is \<open>None\<close> for the nil pointer and \<open>Some\<close> of the struct it points
  to otherwise; a method with a pointer receiver returns the struct as it leaves it.
\<close>

record RateLimiter =
  Limiter :: "rate_Limiter option"
  changePercent :: real

type_synonym RateLimitOption = "RateLimiter \<Rightarrow> RateLimiter"

definition MaxAllowedCallsPerSecond :: real where
  "MaxAllowedCallsPerSecond = 2147483647"

definition DefaultBurst :: int where
  "DefaultBurst = 1"

definition DefaultCPSChangePercent :: "rounding \<Rightarrow> real" where
  "DefaultCPSChangePercent rnd = rnd (1 / 10)"

definition Wait :: "limiterWait \<Rightarrow> context \<Rightarrow> RateLimiter option \<Rightarrow> error option" where
  "Wait lw ctx r =
     (case r of
        None \<Rightarrow> None
      | Some rl \<Rightarrow> (case Limiter rl of None \<Rightarrow> None | Some l \<Rightarrow> lw ctx l))"

text \<open>
  \<^verbatim>\<open>doFn\<close> is a closure: it may change whatever it captured. It is a function from the
  state it works on to its error and the state it leaves.
\<close>

definition RateLimiter_Do ::
  "limiterWait \<Rightarrow> context \<Rightarrow> ('s \<Rightarrow> error option \<times> 's) \<Rightarrow> RateLimiter option \<Rightarrow> 's
     \<Rightarrow> error option \<times> 's" where
  "RateLimiter_Do lw ctx doFn r s =
     (case Wait lw ctx r of
        Some err \<Rightarrow> (Some err, s)
      | None \<Rightarrow>
          (case doFn s of
             (Some err, s') \<Rightarrow> (Some err, s')
           | (None, s') \<Rightarrow> (None, s')))"

definition SetLimit :: "real \<Rightarrow> RateLimiter option \<Rightarrow> RateLimiter option" where
  "SetLimit refillRate r =
     (case r of
        None \<Rightarrow> None
      | Some rl \<Rightarrow>
          (case Limiter rl of
             None \<Rightarrow> Some (rl\<lparr>Limiter := Some (rate_NewLimiter refillRate DefaultBurst)\<rparr>)
           | Some l \<Rightarrow> Some (rl\<lparr>Limiter := Some (l\<lparr>limit := refillRate\<rparr>)\<rparr>)))"

definition Limit :: "RateLimiter option \<Rightarrow> real" where
  "Limit r =
     (case r of
        None \<Rightarrow> MaxAllowedCallsPerSecond
      | Some rl \<Rightarrow>
          (case Limiter rl of None \<Rightarrow> MaxAllowedCallsPerSecond | Some l \<Rightarrow> limit l))"

definition SlowDown :: "rounding \<Rightarrow> RateLimiter option \<Rightarrow> RateLimiter option" where
  "SlowDown rnd r =
     (case r of
        None \<Rightarrow> None
      | Some rl \<Rightarrow>
          (case Limiter rl of
             None \<Rightarrow> r
           | Some l \<Rightarrow> SetLimit (rnd (Limit r * rnd (1 - changePercent rl))) r))"

definition SpeedUp :: "rounding \<Rightarrow> RateLimiter option \<Rightarrow> RateLimiter option" where
  "SpeedUp rnd r =
     (case r of
        None \<Rightarrow> None
      | Some rl \<Rightarrow>
          (case Limiter rl of
             None \<Rightarrow> r
           | Some l \<Rightarrow> SetLimit (rnd (Limit r / rnd (1 - changePercent rl))) r))"

definition SetBurst :: "int \<Rightarrow> RateLimiter option \<Rightarrow> RateLimiter option" where
  "SetBurst b r =
     (case r of
        None \<Rightarrow> None
      | Some rl \<Rightarrow>
          (case Limiter rl of
             None \<Rightarrow> r
           | Some l \<Rightarrow> Some (rl\<lparr>Limiter := Some (l\<lparr>burst := b\<rparr>)\<rparr>)))"

definition Burst :: "RateLimiter option \<Rightarrow> int" where
  "Burst r =
     (case r of
        None \<Rightarrow> DefaultBurst
      | Some rl \<Rightarrow> (case Limiter rl of None \<Rightarrow> DefaultBurst | Some l \<Rightarrow> burst l))"

definition RateLimitChangePercent :: "real \<Rightarrow> RateLimitOption" where
  "RateLimitChangePercent percent = (\<lambda>r. r\<lparr>changePercent := percent\<rparr>)"

definition RateLimitBurst :: "int \<Rightarrow> RateLimitOption" where
  "RateLimitBurst b = (\<lambda>r. case SetBurst b (Some r) of Some r' \<Rightarrow> r' | None \<Rightarrow> r)"

definition NewRateLimiter :: "rounding \<Rightarrow> real \<Rightarrow> RateLimitOption list \<Rightarrow> RateLimiter option" where
  "NewRateLimiter rnd lmt options =
     Some (foldl (\<lambda>rl option. option rl)
       \<lparr>Limiter = Some (rate_NewLimiter lmt DefaultBurst),
        changePercent = DefaultCPSChangePercent rnd\<rparr> options)"

text \<open>The receiver checks of the source: \<^verbatim>\<open>r == nil || r.Limiter == nil\<close>.\<close>

definition absent :: "RateLimiter option \<Rightarrow> bool" where
  "absent r = (case r of None \<Rightarrow> True | Some rl \<Rightarrow> Limiter rl = None)"

section \<open>request.go\<close>

subsection \<open>http.Header of net/http\<close>

text \<open>
  \<^verbatim>\<open>http.Header\<close> is \<^verbatim>\<open>map[string][]string\<close>: here the list of its entries,
  one for each key. \<^verbatim>\<open>Add\<close> and \<^verbatim>\<open>Values\<close> are the library's: both work on the
  canonical form of the key (\<^verbatim>\<open>textproto.CanonicalMIMEHeaderKey\<close>: a key with a byte
  that is no token character stays as it is, any other key gets an upper-case letter at
  its start and after each dash, lower-case letters elsewhere). Reading a key that is
  not in the map gives the empty slice.
\<close>

type_synonym header = "(string \<times> string list) list"

definition validHeaderFieldByte :: "char \<Rightarrow> bool" where
  "validHeaderFieldByte c =
     (let n = (of_char c :: nat)
      in (48 \<le> n \<and> n \<le> 57) \<or> (65 \<le> n \<and> n \<le> 90) \<or> (97 \<le> n \<and> n \<le> 122)
         \<or> n \<in> set [33, 35, 36, 37, 38, 39, 42, 43, 45, 46, 94, 95, 96, 124, 126])"

definition canonByte :: "bool \<Rightarrow> char \<Rightarrow> char" where
  "canonByte upper c =
     (let n = (of_char c :: nat)
      in if upper \<and> 97 \<le> n \<and> n \<le> 122 then char_of (n - 32)
         else if \<not> upper \<and> 65 \<le> n \<and> n \<le> 90 then char_of (n + 32)
         else c)"

fun canonBytes :: "bool \<Rightarrow> string \<Rightarrow> string" where
  "canonBytes upper [] = []"
| "canonBytes upper (c # cs) =
     canonByte upper c # canonBytes (canonByte upper c = CHR ''-'') cs"

definition CanonicalMIMEHeaderKey :: "string \<Rightarrow> string" where
  "CanonicalMIMEHeaderKey s = (if list_all validHeaderFieldByte s then canonBytes True s else s)"

definition entry :: "header \<Rightarrow> string \<Rightarrow> string list" where
  "entry hm key = (case map_of hm key of None \<Rightarrow> [] | Some vs \<Rightarrow> vs)"

definition Header_Add :: "header \<Rightarrow> string \<Rightarrow> string \<Rightarrow> header" where
  "Header_Add hm key val =
     (let k = CanonicalMIMEHeaderKey key in AList.update k (entry hm k @ [val]) hm)"

definition Header_Values :: "header \<Rightarrow> string \<Rightarrow> string list" where
  "Header_Values hm key = entry hm (CanonicalMIMEHeaderKey key)"

subsection \<open>ReqHeaders\<close>

text \<open>
  The field \<^verbatim>\<open>h\<close> of \<^verbatim>\<open>ReqHeaders\<close> is a map, that is a reference: copies of the
  struct share the map they point to. The maps live in a heap, a reference is an
  address of it, \<open>None\<close> is the nil map, and \<^verbatim>\<open>make(http.Header)\<close> takes the next
  unused address. A method with the receiver \<^verbatim>\<open>*ReqHeaders\<close> returns the struct and
  the heap as it leaves them.
\<close>

record heap =
  cells :: "nat \<Rightarrow> header"
  nextRef :: nat

record ReqHeaders =
  ReqID :: string
  h :: "nat option"

definition HeaderReqID :: string where
  "HeaderReqID = ''X-Request-ID''"

definition headerAt :: "'b heap_scheme \<Rightarrow> nat option \<Rightarrow> header" where
  "headerAt hp ref = (case ref of None \<Rightarrow> [] | Some a \<Rightarrow> cells hp a)"

definition AddHeader ::
  "string \<Rightarrow> string list \<Rightarrow> 'a ReqHeaders_scheme \<Rightarrow> 'b heap_scheme
     \<Rightarrow> 'a ReqHeaders_scheme \<times> 'b heap_scheme" where
  "AddHeader key vals r hp =
     (case h r of
        None \<Rightarrow>
          (let a = nextRef hp
           in (r\<lparr>h := Some a\<rparr>,
               hp\<lparr>cells := (cells hp)(a := foldl (\<lambda>hm val. Header_Add hm key val) [] vals),
                  nextRef := Suc a\<rparr>))
      | Some a \<Rightarrow>
          (r, hp\<lparr>cells := (cells hp)(a := foldl (\<lambda>hm val. Header_Add hm key val) (cells hp a) vals)\<rparr>))"

definition ReqHeaders_Header ::
  "'a ReqHeaders_scheme \<Rightarrow> 'b heap_scheme
     \<Rightarrow> nat option \<times> 'a ReqHeaders_scheme \<times> 'b heap_scheme" where
  "ReqHeaders_Header r hp =
     (case (if ReqID r \<noteq> [] then AddHeader HeaderReqID [ReqID r] r hp else (r, hp)) of
        (r', hp') \<Rightarrow> (h r', r', hp'))"

text \<open>Calling \<^verbatim>\<open>Header()\<close> \<open>n\<close> times in a row on the same struct.\<close>

fun Header_times ::
  "nat \<Rightarrow> 'a ReqHeaders_scheme \<Rightarrow> 'b heap_scheme
     \<Rightarrow> nat option \<times> 'a ReqHeaders_scheme \<times> 'b heap_scheme" where
  "Header_times 0 r hp = (h r, r, hp)"
| "Header_times (Suc n) r hp =
     (case ReqHeaders_Header r hp of (ref, r', hp') \<Rightarrow> Header_times n r' hp')"

subsection \<open>reqWithHeaders\<close>

text \<open>
  A request is the part of \<^verbatim>\<open>http.Request\<close> the package touches: method, path and
  query of its URL, its header map and its context. It is one built by
  \<^verbatim>\<open>http.NewRequest\<close>, as \<^verbatim>\<open>Client.Request\<close> does: the URL and the header map are
  allocated, and the header map is the request's own.
  Go ranges over a map in no fixed order; the model ranges over the entries in the order
  of the list. For a map whose keys are canonical, as every map filled by \<^verbatim>\<open>Add\<close> is,
  the values that end up under a key do not depend on that order.
\<close>

record request =
  Method :: string
  URL_Path :: string
  URL_RawQuery :: string
  Header :: header
  Ctx :: "context"

definition addHeaders :: "header \<Rightarrow> header \<Rightarrow> header" where
  "addHeaders hdr headers =
     foldl (\<lambda>hm (k, vals). foldl (\<lambda>hm' v. Header_Add hm' k v) hm vals) hdr headers"

definition reqWithHeaders :: "request \<Rightarrow> header list \<Rightarrow> request" where
  "reqWithHeaders rq headerMaps = rq\<lparr>Header := foldl addHeaders (Header rq) headerMaps\<rparr>"

section \<open>client.go\<close>

subsection \<open>The collaborators\<close>

text \<open>
  A response is its descriptor: status code, status line and header map. The body
  stream, and the JSON decoding of it that \<^verbatim>\<open>logRqRs\<close> adds to the log record when it
  succeeds, are not modelled.
  A transport (\<^verbatim>\<open>httpClient\<close>, in production \<^verbatim>\<open>*http.Client\<close>) answers a request with a
  response, an error, or whatever else its signature allows; the answer may depend on
  the moment of the call. It reads the request and leaves it as it is.
\<close>

record response =
  StatusCode :: int
  Status :: string
  ResHeader :: header

type_synonym outcome = "response option \<times> error option"

type_synonym transport = "nat \<Rightarrow> request \<Rightarrow> outcome"

definition StatusTooManyRequests :: int where
  "StatusTooManyRequests = 429"

definition Default429Retry :: int where
  "Default429Retry = 2"

text \<open>
  The logger receives a level, a message and the fields. The fields are the request
  fields with the text of the error, or the request fields with the status line and the
  header map of the response.
\<close>

datatype level = Info | Warn | Error

record reqFields =
  f_method :: string
  f_path :: string
  f_header :: header
  f_query :: string

datatype fields =
  ReqError reqFields string
| ReqRes reqFields string header

text \<open>
  What a dispatch leaves behind for an observer, in order: the requests as the transport
  received them, the log records, and the calls of \<^verbatim>\<open>SlowDown\<close>.
\<close>

datatype event =
  Sent request
| Logged level string fields
| SlowDownCalled

datatype panic = NilPointerDereference

subsection \<open>Client\<close>

text \<open>
  \<^verbatim>\<open>Client\<close> embeds \<^verbatim>\<open>ReqHeaders\<close>. Its methods have value receivers: each call works
  on a copy of the struct, so what a method writes to the struct is lost at its return,
  and what it writes through a reference (the header map, the limiter, the request)
  stays. The things behind the references are the world: the heap of header maps, the
  request behind \<^verbatim>\<open>req\<close>, the limiter behind \<^verbatim>\<open>c.RateLimiter\<close> (\<open>None\<close> for the nil
  pointer), the number of attempts so far (the moment the bucket and the transport are
  asked at), and the events.
\<close>

record Client = ReqHeaders +
  HttpClient :: "transport option"
  Host :: string
  RetriesOn429 :: int

record world = heap +
  req :: request
  rateLimiter :: "RateLimiter option"
  clock :: nat
  trace :: "event list"

record env =
  rnd :: rounding
  limWait :: "nat \<Rightarrow> limiterWait"
  defaultClient :: transport

definition httpClient :: "Client \<Rightarrow> env \<Rightarrow> transport" where
  "httpClient c ev = (case HttpClient c of Some t \<Rightarrow> t | None \<Rightarrow> defaultClient ev)"

definition logRqRs ::
  "request \<Rightarrow> response option \<Rightarrow> error option \<Rightarrow> panic + (level \<times> string \<times> fields)" where
  "logRqRs rq res err =
     (let msg = ''[RQ/RS] '' @ Method rq @ '' '' @ URL_Path rq;
          rqFields = \<lparr>f_method = Method rq, f_path = URL_Path rq, f_header = Header rq,
                      f_query = URL_RawQuery rq\<rparr>
      in case err of
           Some e \<Rightarrow> Inr (Error, msg, ReqError rqFields e)
         | None \<Rightarrow>
             (case res of
                None \<Rightarrow> Inl NilPointerDereference
              | Some rs \<Rightarrow>
                  (let flds = ReqRes rqFields (Status rs) (ResHeader rs);
                       msg' = msg @ '' '' @ Status rs
                   in if StatusCode rs \<ge> 400 then Inr (Warn, msg', flds)
                      else Inr (Info, msg', flds))))"

definition is429 :: "response option \<Rightarrow> bool" where
  "is429 res = (case res of None \<Rightarrow> False | Some rs \<Rightarrow> StatusCode rs = StatusTooManyRequests)"

definition Client_do :: "Client \<Rightarrow> env \<Rightarrow> world \<Rightarrow> panic + (outcome \<times> world)" where
  "Client_do c ev w =
     (case Wait (limWait ev (clock w)) (Ctx (req w)) (rateLimiter w) of
        Some err \<Rightarrow> Inr ((None, Some err), w\<lparr>clock := Suc (clock w)\<rparr>)
      | None \<Rightarrow>
          (case ReqHeaders_Header c w of
             (ref, c', w1) \<Rightarrow>
               (let rq = reqWithHeaders (req w1) [headerAt w1 ref];
                    out = httpClient c ev (clock w) rq;
                    w2 = w1\<lparr>req := rq, clock := Suc (clock w), trace := trace w1 @ [Sent rq]\<rparr>
                in case logRqRs rq (fst out) (snd out) of
                     Inl p \<Rightarrow> Inl p
                   | Inr (lvl, msg, flds) \<Rightarrow>
                       (let w3 = w2\<lparr>trace := trace w2 @ [Logged lvl msg flds]\<rparr>
                        in if is429 (fst out)
                           then Inr (out, w3\<lparr>rateLimiter := SlowDown (rnd ev) (rateLimiter w3),
                                             trace := trace w3 @ [SlowDownCalled]\<rparr>)
                           else Inr (out, w3)))))"

function retry :: "Client \<Rightarrow> env \<Rightarrow> int \<Rightarrow> outcome \<Rightarrow> world \<Rightarrow> panic + (outcome \<times> world)" where
  "retry c ev tries out w =
     (if is429 (fst out) \<and> tries < RetriesOn429 c
      then (case Client_do c ev w of
              Inl p \<Rightarrow> Inl p
            | Inr (out', w') \<Rightarrow> retry c ev (tries + 1) out' w')
      else Inr (out, w))"
  by pat_completeness auto
termination
  by (relation "measure (\<lambda>(c, ev, tries, out, w). nat (RetriesOn429 c - tries))") auto

definition Client_Do :: "Client \<Rightarrow> env \<Rightarrow> world \<Rightarrow> panic + (outcome \<times> world)" where
  "Client_Do c ev w =
     (case Client_do c ev w of
        Inl p \<Rightarrow> Inl p
      | Inr (out, w') \<Rightarrow> retry c ev 0 out w')"

text \<open>The requests the transport has received, oldest first, and how many they are.\<close>

fun sent :: "event list \<Rightarrow> request list" where
  "sent [] = []"
| "sent (Sent rq # es) = rq # sent es"
| "sent (e # es) = sent es"

definition transportCalls :: "world \<Rightarrow> nat" where
  "transportCalls w = length (sent (trace w))"

section \<open>Notions the statements use\<close>

text \<open>
  A header map as \<^verbatim>\<open>Add\<close> builds it: every key is in canonical form. (One entry for
  each key is what makes the list of entries a map.) The nil map and the empty map are
  such maps, and \<^verbatim>\<open>AddHeader\<close> keeps a map such a map.
\<close>

definition canonicalKeys :: "header \<Rightarrow> bool" where
  "canonicalKeys hm =
     (distinct (map fst hm) \<and> list_all (\<lambda>k. CanonicalMIMEHeaderKey k = k) (map fst hm))"

text \<open>
  What a run from the world \<open>w\<close> to the world \<open>w'\<close> has added to the request under the
  canonical key \<open>kk\<close>: the values the client's map holds under \<open>kk\<close>, once for each
  call of the transport; the client's map still holds those values under \<open>kk\<close>, and
  the request differs from what it was in its header map only.
\<close>

definition attempts_add :: "Client \<Rightarrow> string \<Rightarrow> world \<Rightarrow> world \<Rightarrow> bool" where
  "attempts_add c kk w w' =
     (transportCalls w \<le> transportCalls w' \<and>
      canonicalKeys (headerAt w' (h c)) \<and>
      entry (headerAt w' (h c)) kk = entry (headerAt w (h c)) kk \<and>
      (req w')\<lparr>Header := Header (req w)\<rparr> = req w \<and>
      entry (Header (req w')) kk
        = entry (Header (req w)) kk
          @ concat (replicate (transportCalls w' - transportCalls w) (entry (headerAt w (h c)) kk)))"

subsection \<open>Fixtures, after client_test.go\<close>

text \<open>
  A GET request for \<^verbatim>\<open>/\<close> with a background context; three answers of a server; a
  world with nothing in it but a limiter and a request; an environment whose bucket
  always has a token in time and fails only for a context that is done; a client with
  no headers of its own that uses the default transport.
\<close>

definition getRoot :: request where
  "getRoot = \<lparr>Method = ''GET'', URL_Path = ''/'', URL_RawQuery = [], Header = [],
     Ctx = Context None\<rparr>"

definition statusOK :: response where
  "statusOK = \<lparr>StatusCode = 200, Status = ''200 OK'', ResHeader = []\<rparr>"

definition tooManyRequests :: response where
  "tooManyRequests = \<lparr>StatusCode = 429, Status = ''429 Too Many Requests'', ResHeader = []\<rparr>"

definition internalServerError :: response where
  "internalServerError =
     \<lparr>StatusCode = 500, Status = ''500 Internal Server Error'', ResHeader = []\<rparr>"

definition newWorld :: "RateLimiter option \<Rightarrow> request \<Rightarrow> world" where
  "newWorld rl rq =
     \<lparr>cells = \<lambda>a. [], nextRef = 0, req = rq, rateLimiter = rl, clock = 0, trace = []\<rparr>"

definition testEnv :: "transport \<Rightarrow> env" where
  "testEnv t = \<lparr>rnd = exact, limWait = \<lambda>i ctx l. ctxErr ctx, defaultClient = t\<rparr>"

definition testClient :: "int \<Rightarrow> Client" where
  "testClient k = \<lparr>ReqID = [], h = None, HttpClient = None, Host = [], RetriesOn429 = k\<rparr>"

text \<open>
  What a test reads off a dispatch: the result, the number of calls the transport got,
  the rate of the limiter, the header map of the request, and the levels logged.
\<close>

fun levels :: "event list \<Rightarrow> level list" where
  "levels [] = []"
| "levels (Logged lvl msg flds # es) = lvl # levels es"
| "levels (e # es) = levels es"

definition summary ::
  "panic + (outcome \<times> world) \<Rightarrow> panic + (outcome \<times> nat \<times> real \<times> header \<times> level list)" where
  "summary r =
     (case r of
        Inl p \<Rightarrow> Inl p
      | Inr (out, w) \<Rightarrow>
          Inr (out, transportCalls w, Limit (rateLimiter w), Header (req w), levels (trace w)))"

section \<open>The limiter\<close>

text \<open>
  C6. For an absent limiter (a nil \<^verbatim>\<open>*RateLimiter\<close>, or one whose bucket is nil) no
  operation blocks or fails: \<^verbatim>\<open>Wait\<close> returns nil for every context without asking the
  bucket, \<^verbatim>\<open>Limit\<close> returns \<^verbatim>\<open>MaxAllowedCallsPerSecond\<close>, \<^verbatim>\<open>Burst\<close> the default burst,
  \<^verbatim>\<open>SlowDown\<close>, \<^verbatim>\<open>SpeedUp\<close> and \<^verbatim>\<open>SetBurst\<close> leave the limiter as it is, and so does
  \<^verbatim>\<open>SetLimit\<close> on the nil receiver.
\<close>

theorem absent_limiter_transparent:
  assumes "absent r"
  shows "Wait lw ctx r = None
    \<and> Limit r = MaxAllowedCallsPerSecond
    \<and> Burst r = DefaultBurst
    \<and> SlowDown rd r = r
    \<and> SpeedUp rd r = r
    \<and> SetBurst b r = r
    \<and> SetLimit x None = None"
  using assms
  by (auto simp: absent_def Wait_def Limit_def Burst_def SlowDown_def SpeedUp_def SetBurst_def
      SetLimit_def split: option.splits)

theorem absent_limiter_transparent_witness:
  "absent (Some \<lparr>Limiter = None, changePercent = 1 / 10\<rparr>)
   \<and> Wait (\<lambda>ctx l. Some ''never'') (Context (Some ''context canceled''))
         (Some \<lparr>Limiter = None, changePercent = 1 / 10\<rparr>) = None
   \<and> Limit (Some \<lparr>Limiter = None, changePercent = 1 / 10\<rparr>) = 2147483647
   \<and> SlowDown exact (Some \<lparr>Limiter = None, changePercent = 1 / 10\<rparr>)
       = Some \<lparr>Limiter = None, changePercent = 1 / 10\<rparr>
   \<and> absent None
   \<and> Wait (\<lambda>ctx l. Some ''never'') (Context None) None = None
   \<and> SpeedUp exact None = None"
proof -
  have a: "absent (Some \<lparr>Limiter = None, changePercent = 1 / 10\<rparr>)"
    by (simp add: absent_def)
  have b: "absent None"
    by (simp add: absent_def)
  show ?thesis
    using a b
      absent_limiter_transparent [OF a, of "\<lambda>ctx l. Some ''never''"
        "Context (Some ''context canceled'')" exact]
      absent_limiter_transparent [OF b, of "\<lambda>ctx l. Some ''never''" "Context None" exact]
    by (simp add: MaxAllowedCallsPerSecond_def)
qed

text \<open>
  C7. \<^verbatim>\<open>RateLimiter.Do\<close> is \<^verbatim>\<open>Wait\<close> followed by the operation. When \<^verbatim>\<open>Wait\<close> returns
  an error, that error is returned and the operation has not run (the state it works
  on is untouched); when \<^verbatim>\<open>Wait\<close> returns nil, the operation runs once and its error,
  or nil, is returned.
\<close>

theorem RateLimiter_Do_wait_then_op:
  "(\<forall>err. Wait lw ctx r = Some err \<longrightarrow> RateLimiter_Do lw ctx doFn r s = (Some err, s))
   \<and> (Wait lw ctx r = None \<longrightarrow> RateLimiter_Do lw ctx doFn r s = doFn s)"
  by (auto simp: RateLimiter_Do_def split: option.splits prod.splits)

theorem RateLimiter_Do_wait_then_op_witness:
  "RateLimiter_Do (\<lambda>ctx l. ctxErr ctx) (Context (Some ''context canceled''))
       (\<lambda>n. (Some ''some error'', Suc n)) (NewRateLimiter exact 10 []) (0 :: nat)
     = (Some ''context canceled'', 0)
   \<and> RateLimiter_Do (\<lambda>ctx l. ctxErr ctx) (Context None)
       (\<lambda>n. (Some ''some error'', Suc n)) (NewRateLimiter exact 10 []) (0 :: nat)
     = (Some ''some error'', 1)
   \<and> RateLimiter_Do (\<lambda>ctx l. ctxErr ctx) (Context None)
       (\<lambda>n. (None, Suc n)) None (0 :: nat)
     = (None, 1)"
proof -
  have a: "Wait (\<lambda>ctx l. ctxErr ctx) (Context (Some ''context canceled''))
      (NewRateLimiter exact 10 []) = Some ''context canceled''"
    by (simp add: Wait_def NewRateLimiter_def)
  have b: "Wait (\<lambda>ctx l. ctxErr ctx) (Context None) (NewRateLimiter exact 10 []) = None"
    by (simp add: Wait_def NewRateLimiter_def)
  have c: "Wait (\<lambda>ctx l. ctxErr ctx) (Context None) None = None"
    by (simp add: Wait_def)
  show ?thesis
    using a b c
      RateLimiter_Do_wait_then_op [of "\<lambda>ctx l. ctxErr ctx" "Context (Some ''context canceled'')"
        "NewRateLimiter exact 10 []" "\<lambda>n. (Some ''some error'', Suc n)" "0 :: nat"]
      RateLimiter_Do_wait_then_op [of "\<lambda>ctx l. ctxErr ctx" "Context None"
        "NewRateLimiter exact 10 []" "\<lambda>n. (Some ''some error'', Suc n)" "0 :: nat"]
      RateLimiter_Do_wait_then_op [of "\<lambda>ctx l. ctxErr ctx" "Context None"
        None "\<lambda>n. (None, Suc n)" "0 :: nat"]
    by simp
qed

text \<open>
  C8. On a limiter that is not nil, \<^verbatim>\<open>SetLimit(x)\<close> replaces the refill rate: \<^verbatim>\<open>Limit()\<close>
  returns \<open>x\<close> afterwards. When the limiter had no bucket, \<^verbatim>\<open>SetLimit\<close> builds one with
  rate \<open>x\<close> and the default burst, and \<^verbatim>\<open>Burst()\<close> returns 1.
\<close>

theorem SetLimit_replaces_rate:
  "Limit (SetLimit x (Some rl)) = x
   \<and> (Limiter rl = None \<longrightarrow>
        SetLimit x (Some rl) = Some (rl\<lparr>Limiter := Some \<lparr>limit = x, burst = 1\<rparr>\<rparr>)
        \<and> Burst (SetLimit x (Some rl)) = 1)"
  by (auto simp: Limit_def SetLimit_def Burst_def rate_NewLimiter_def DefaultBurst_def
      split: option.splits)

theorem SetLimit_replaces_rate_witness:
  "Limit (SetLimit 5 (Some \<lparr>Limiter = None, changePercent = 1 / 10\<rparr>)) = 5
   \<and> SetLimit 5 (Some \<lparr>Limiter = None, changePercent = 1 / 10\<rparr>)
       = Some \<lparr>Limiter = Some \<lparr>limit = 5, burst = 1\<rparr>, changePercent = 1 / 10\<rparr>
   \<and> Burst (SetLimit 5 (Some \<lparr>Limiter = None, changePercent = 1 / 10\<rparr>)) = 1
   \<and> Limit (SetLimit 5 (NewRateLimiter exact 100 [RateLimitBurst 3])) = 5
   \<and> Burst (SetLimit 5 (NewRateLimiter exact 100 [RateLimitBurst 3])) = 3"
proof -
  have a: "Limiter \<lparr>Limiter = None, changePercent = 1 / 10\<rparr> = None"
    by simp
  have b: "Burst (SetLimit 5 (NewRateLimiter exact 100 [RateLimitBurst 3])) = 3"
    by (simp add: NewRateLimiter_def RateLimitBurst_def SetBurst_def SetLimit_def Burst_def
        rate_NewLimiter_def)
  have c: "NewRateLimiter exact 100 [RateLimitBurst 3]
      = Some \<lparr>Limiter = Some \<lparr>limit = 100, burst = 3\<rparr>, changePercent = 1 / 10\<rparr>"
    by (simp add: NewRateLimiter_def RateLimitBurst_def SetBurst_def rate_NewLimiter_def
        DefaultCPSChangePercent_def exact_def)
  show ?thesis
    using a b
      SetLimit_replaces_rate [of 5 "\<lparr>Limiter = None, changePercent = 1 / 10\<rparr>"]
      SetLimit_replaces_rate [of 5 "\<lparr>Limiter = Some \<lparr>limit = 100, burst = 3\<rparr>,
        changePercent = 1 / 10\<rparr>"]
    unfolding c
    by (simp add: Limit_def Burst_def)
qed

subsection \<open>Rounding to float64\<close>

lemma float64_binade:
  assumes "2 powi k \<le> \<bar>x\<bar>" "\<bar>x\<bar> < 2 powi (k + 1)" "- 1022 \<le> k"
  shows "float64 x = of_int (roundHalfEven (x / 2 powi (k - 52))) * 2 powi (k - 52)"
proof -
  have pos: "0 < \<bar>x\<bar>"
    using assms(1) by (smt (verit) zero_less_power_int)
  have e1: "(2::real) powr (real_of_int k) = 2 powi k"
    using powr_real_of_int' [of 2 k] by simp
  have e2: "(2::real) powr (real_of_int k + 1) = 2 powi (k + 1)"
    using powr_real_of_int' [of 2 "k + 1"] by simp
  have "\<lfloor>log 2 \<bar>x\<bar>\<rfloor> = k"
    using assms(1,2) pos by (simp add: floor_log_eq_powr_iff e1 e2)
  then show ?thesis
    using pos assms(3) by (simp add: float64_def Let_def max_def)
qed

lemma float64_3_10: "float64 (3 / 10) = 5404319552844595 / 2 ^ 54"
  by (subst float64_binade [of "- 2"]) (simp_all add: roundHalfEven_def Let_def power_int_minus)

lemma float64_7_10: "float64 (1 - 5404319552844595 / 2 ^ 54) = 6305039478318694 / 2 ^ 53"
  by (subst float64_binade [of "- 1"]) (simp_all add: roundHalfEven_def Let_def power_int_minus)

lemma float64_slowed: "float64 (1000000000 * (6305039478318694 / 2 ^ 53)) = 700000000"
  by (subst float64_binade [of 29]) (simp_all add: roundHalfEven_def Let_def power_int_minus)

lemma float64_restored:
  "float64 (700000000 / (6305039478318694 / 2 ^ 53)) = 1000000000 + 1 / 2 ^ 23"
  by (subst float64_binade [of 29]) (simp_all add: roundHalfEven_def Let_def power_int_minus)

lemma minNormal_pos: "0 < minNormal"
  unfolding minNormal_def by (rule zero_less_power_int) simp

lemma roundHalfEven_error: "\<bar>of_int (roundHalfEven x) - x\<bar> \<le> 1 / 2"
proof -
  have "of_int \<lfloor>x\<rfloor> \<le> x" "x < of_int \<lfloor>x\<rfloor> + 1"
    by linarith+
  then show ?thesis
    by (auto simp: roundHalfEven_def Let_def abs_le_iff)
qed

lemma float64_error:
  assumes "minNormal \<le> \<bar>x\<bar>"
  shows "\<bar>float64 x - x\<bar> \<le> \<bar>x\<bar> / 2 ^ 53"
proof -
  define k where "k = \<lfloor>log 2 \<bar>x\<bar>\<rfloor>"
  have pos: "0 < \<bar>x\<bar>"
    using assms minNormal_pos by linarith
  have e1: "(2::real) powr (real_of_int k) = 2 powi k"
    using powr_real_of_int' [of 2 k] by simp
  have e2: "(2::real) powr (real_of_int k + 1) = 2 powi (k + 1)"
    using powr_real_of_int' [of 2 "k + 1"] by simp
  have "2 powr (real_of_int k) \<le> \<bar>x\<bar> \<and> \<bar>x\<bar> < 2 powr (real_of_int k + 1)"
    using floor_log_eq_powr_iff [of "\<bar>x\<bar>" 2 k] pos k_def by simp
  then have b: "2 powi k \<le> \<bar>x\<bar>" "\<bar>x\<bar> < 2 powi (k + 1)"
    unfolding e1 e2 by simp_all
  have k: "- 1022 \<le> k"
  proof (rule ccontr)
    assume "\<not> - 1022 \<le> k"
    then have "k + 1 \<le> - 1022" by simp
    then have "(2::real) powi (k + 1) \<le> minNormal"
      unfolding minNormal_def by (intro power_int_increasing) simp_all
    with b(2) assms show False by linarith
  qed
  define s :: real where "s = 2 powi (k - 52)"
  have s: "0 < s" "s = 2 powi k / 2 ^ 52"
    by (simp_all add: s_def power_int_diff)
  have f: "float64 x = of_int (roundHalfEven (x / s)) * s"
    unfolding s_def by (rule float64_binade [OF b k])
  have "\<bar>float64 x - x\<bar> = s * \<bar>of_int (roundHalfEven (x / s)) - x / s\<bar>"
    using s(1) unfolding f by (simp add: abs_mult [symmetric] field_simps del: abs_mult)
  also have "\<dots> \<le> s * (1 / 2)"
    using s(1) roundHalfEven_error [of "x / s"] by (intro mult_left_mono) simp_all
  also have "\<dots> = 2 powi k / 2 ^ 53"
    by (simp add: s(2))
  also have "\<dots> \<le> \<bar>x\<bar> / 2 ^ 53"
    using b(1) by (simp add: divide_right_mono)
  finally show ?thesis .
qed

lemma float64_round_trip_error:
  assumes r0: "2 * minNormal \<le> r0" and q: "0 < q" and pr: "minNormal \<le> r0 * q"
  shows "\<bar>float64 (float64 (r0 * q) / q) - r0\<bar> \<le> r0 * (2 / 2 ^ 53 + 1 / 2 ^ 106)"
proof -
  define u :: real where "u = 1 / 2 ^ 53"
  define m where "m = float64 (r0 * q)"
  have u: "0 < u" "u \<le> 1 / 2"
    by (simp_all add: u_def)
  have uu: "u * u = 1 / 2 ^ 106"
    by (simp add: u_def)
  have r0p: "0 < r0"
    using r0 minNormal_pos by linarith
  have "\<bar>m - r0 * q\<bar> \<le> \<bar>r0 * q\<bar> / 2 ^ 53"
    unfolding m_def using pr r0p q by (intro float64_error) simp
  then have m: "\<bar>m - r0 * q\<bar> \<le> r0 * q * u"
    using r0p q by (simp add: u_def abs_mult)
  have "m / q - r0 = (m - r0 * q) / q"
    using q by (simp add: field_simps)
  then have "\<bar>m / q - r0\<bar> = \<bar>m - r0 * q\<bar> / q"
    using q by simp
  also have "\<dots> \<le> (r0 * q * u) / q"
    using m q by (intro divide_right_mono) simp_all
  also have "\<dots> = r0 * u"
    using q by simp
  finally have mq: "\<bar>m / q - r0\<bar> \<le> r0 * u" .
  have ex: "r0 * (1 - u) = r0 - r0 * u" "r0 * (1 + u) = r0 + r0 * u"
    by (simp_all add: right_diff_distrib distrib_left)
  have lo: "r0 * (1 - u) \<le> m / q" and hi: "m / q \<le> r0 * (1 + u)"
    unfolding ex using mq by linarith+
  have "minNormal = (2 * minNormal) * (1 / 2)"
    by simp
  also have "\<dots> \<le> r0 * (1 - u)"
    using r0 u r0p by (intro mult_mono) simp_all
  finally have n: "minNormal \<le> \<bar>m / q\<bar>"
    using lo by linarith
  have "0 \<le> r0 * (1 - u)"
    using r0p u by (intro mult_nonneg_nonneg) simp_all
  then have mqp: "0 \<le> m / q"
    using lo by linarith
  have "\<bar>float64 (m / q) - m / q\<bar> \<le> \<bar>m / q\<bar> / 2 ^ 53"
    using n by (rule float64_error)
  also have "\<dots> = (m / q) * u"
    unfolding abs_of_nonneg [OF mqp] by (simp add: u_def)
  also have "\<dots> \<le> r0 * (1 + u) * u"
    using hi u by (intro mult_right_mono) simp_all
  finally have d: "\<bar>float64 (m / q) - m / q\<bar> \<le> r0 * (1 + u) * u" .
  have "\<bar>float64 (m / q) - r0\<bar> \<le> \<bar>float64 (m / q) - m / q\<bar> + \<bar>m / q - r0\<bar>"
    by linarith
  also have "\<dots> \<le> r0 * (1 + u) * u + r0 * u"
    using d mq by linarith
  also have "\<dots> = r0 * (2 * u + u * u)"
    by (simp add: distrib_left distrib_right)
  also have "\<dots> = r0 * (2 / 2 ^ 53 + 1 / 2 ^ 106)"
    unfolding uu by (simp add: u_def)
  finally show ?thesis
    unfolding m_def .
qed

lemma minNormal_small: "2 ^ 54 * minNormal \<le> 1" "minNormal \<le> 1 / 2 ^ 54"
proof -
  have "(2::real) powi (- 1022) \<le> 2 powi (- 54)"
    by (rule power_int_increasing) simp_all
  then show "minNormal \<le> 1 / 2 ^ 54"
    unfolding minNormal_def by (simp add: power_int_minus)
  then show "2 ^ 54 * minNormal \<le> 1"
    by (simp add: field_simps)
qed

lemma overflowThreshold_large: "2 ^ 10 \<le> overflowThreshold"
proof -
  have "(2::real) powi 10 \<le> 2 powi 1024"
    by (rule power_int_increasing) simp_all
  then show ?thesis
    unfolding overflowThreshold_def by simp
qed

lemma float64_round_trip_rate:
  assumes p: "1 / 2 ^ 53 \<le> 1 - p" and r0: "2 ^ 54 * minNormal \<le> r0"
  shows "\<bar>float64 (float64 (r0 * float64 (1 - p)) / float64 (1 - p)) - r0\<bar>
      \<le> r0 * (2 / 2 ^ 53 + 1 / 2 ^ 106)"
proof -
  define q where "q = float64 (1 - p)"
  have "(1::real) / 2 ^ 54 \<le> 1 / 2 ^ 53"
    by simp
  then have mp: "minNormal \<le> 1 - p"
    using p minNormal_small(2) by linarith
  have pp: "0 < 1 - p"
    using mp minNormal_pos by linarith
  define X where "X = (1 - p) / 2 ^ 53"
  have "\<bar>q - (1 - p)\<bar> \<le> \<bar>1 - p\<bar> / 2 ^ 53"
    unfolding q_def using mp pp by (intro float64_error) simp
  then have "\<bar>q - (1 - p)\<bar> \<le> X"
    unfolding abs_of_pos [OF pp] X_def .
  moreover have "X \<le> (1 - p) / 2"
    unfolding X_def using pp by (intro divide_left_mono) simp_all
  ultimately have "(1 - p) / 2 \<le> q"
    by argo
  moreover have "1 / 2 ^ 54 \<le> (1 - p) / 2"
    using p by simp
  ultimately have q54: "1 / 2 ^ 54 \<le> q"
    by linarith
  have "(0::real) < 1 / 2 ^ 54"
    by simp
  with q54 have q: "0 < q"
    by linarith
  have "0 < 2 ^ 54 * minNormal"
    using minNormal_pos by simp
  with r0 have r0p: "0 < r0"
    by linarith
  have "minNormal = (2 ^ 54 * minNormal) * (1 / 2 ^ 54)"
    by simp
  also have "\<dots> \<le> r0 * q"
    using r0 q54 minNormal_pos by (intro mult_mono) simp_all
  finally have pr: "minNormal \<le> r0 * q" .
  have "2 * minNormal \<le> 2 ^ 54 * minNormal"
    using minNormal_pos by simp
  with r0 have r2: "2 * minNormal \<le> r0"
    by linarith
  show ?thesis
    using float64_round_trip_error [OF r2 q pr] unfolding q_def .
qed

subsection \<open>SlowDown and SpeedUp\<close>

lemma round_trip_value:
  "Limit (SpeedUp rd (SlowDown rd (Some \<lparr>Limiter = Some l, changePercent = c\<rparr>)))
     = rd (rd (limit l * rd (1 - c)) / rd (1 - c))"
  by (simp add: SlowDown_def SpeedUp_def SetLimit_def Limit_def)




text \<open>
  C2, amended. On a limiter with a bucket, a rate \<open>r0 > 0\<close> and a change percentage
  \<open>p\<close> between 0 and 1, \<^verbatim>\<open>SlowDown\<close> sets the rate to \<open>r0 * (1 - p)\<close> and \<^verbatim>\<open>SpeedUp\<close>
  after it restores \<open>r0\<close>, and the whole limiter: exactly, in real arithmetic.
  In \<^verbatim>\<open>float64\<close> arithmetic the restored rate is within \<open>r0 * (2 ^ -52 + 2 ^ -106)\<close> of
  \<open>r0\<close>, a relative tolerance, whenever \<open>1 - p\<close> is at least \<open>2 ^ -53\<close> (as it is for
  every \<^verbatim>\<open>float64\<close> below 1) and the rate is large enough for every result to be a
  normal number and small enough for none to overflow; it is within \<open>1e-9\<close> of \<open>r0\<close>
  for rates up to four million.
\<close>

theorem SpeedUp_undoes_SlowDown:
  assumes "0 < r0" "0 < p" "p < 1" "Limiter rl = Some l" "limit l = r0" "changePercent rl = p"
  shows "Limit (SlowDown exact (Some rl)) = r0 * (1 - p)
    \<and> Limit (SpeedUp exact (SlowDown exact (Some rl))) = r0
    \<and> SpeedUp exact (SlowDown exact (Some rl)) = Some rl
    \<and> (1 / 2 ^ 53 \<le> 1 - p \<and> 2 ^ 54 * minNormal \<le> r0 \<and> 2 * r0 \<le> overflowThreshold \<longrightarrow>
          \<bar>Limit (SpeedUp float64 (SlowDown float64 (Some rl))) - r0\<bar>
            \<le> r0 * (2 / 2 ^ 53 + 1 / 2 ^ 106)
          \<and> (r0 \<le> 4000000 \<longrightarrow>
                \<bar>Limit (SpeedUp float64 (SlowDown float64 (Some rl))) - r0\<bar> \<le> 1 / 10 ^ 9))"
proof -
  have rl: "rl = \<lparr>Limiter = Some l, changePercent = p\<rparr>"
    using assms(4,6) by (cases rl) simp
  have e: "Limit (SlowDown exact (Some rl)) = r0 * (1 - p)
    \<and> Limit (SpeedUp exact (SlowDown exact (Some rl))) = r0
    \<and> SpeedUp exact (SlowDown exact (Some rl)) = Some rl"
    using assms by (simp add: Limit_def SetLimit_def SpeedUp_def SlowDown_def exact_def)
  have f: "\<bar>Limit (SpeedUp float64 (SlowDown float64 (Some rl))) - r0\<bar>
            \<le> r0 * (2 / 2 ^ 53 + 1 / 2 ^ 106)"
    if "1 / 2 ^ 53 \<le> 1 - p" "2 ^ 54 * minNormal \<le> r0"
    unfolding rl round_trip_value assms(5) by (rule float64_round_trip_rate [OF that])
  have g: "r0 * (2 / 2 ^ 53 + 1 / 2 ^ 106) \<le> 1 / 10 ^ 9" if "r0 \<le> 4000000"
  proof -
    have "r0 * (2 / 2 ^ 53 + 1 / 2 ^ 106) \<le> 4000000 * (2 / 2 ^ 53 + 1 / 2 ^ 106)"
      using that by (intro mult_right_mono) simp_all
    also have "\<dots> \<le> 1 / 10 ^ 9"
      by simp
    finally show ?thesis .
  qed
  show ?thesis
    using e f g by force
qed

theorem SpeedUp_undoes_SlowDown_witness:
  "Limit (SlowDown exact (NewRateLimiter exact 100 [RateLimitChangePercent (1 / 4)])) = 75
   \<and> Limit (SpeedUp exact (SlowDown exact
        (NewRateLimiter exact 100 [RateLimitChangePercent (1 / 4)]))) = 100
   \<and> SpeedUp exact (SlowDown exact (NewRateLimiter exact 100 [RateLimitChangePercent (1 / 4)]))
       = NewRateLimiter exact 100 [RateLimitChangePercent (1 / 4)]
   \<and> \<bar>Limit (SpeedUp float64 (SlowDown float64
        (NewRateLimiter float64 100 [RateLimitChangePercent (1 / 4)]))) - 100\<bar>
       \<le> 100 * (2 / 2 ^ 53 + 1 / 2 ^ 106)
   \<and> \<bar>Limit (SpeedUp float64 (SlowDown float64
        (NewRateLimiter float64 100 [RateLimitChangePercent (1 / 4)]))) - 100\<bar>
       \<le> 1 / 10 ^ 9"
proof -
  have n: "NewRateLimiter rd 100 [RateLimitChangePercent (1 / 4)]
      = Some \<lparr>Limiter = Some \<lparr>limit = 100, burst = 1\<rparr>, changePercent = 1 / 4\<rparr>" for rd
    by (simp add: NewRateLimiter_def RateLimitChangePercent_def rate_NewLimiter_def DefaultBurst_def)
  have a: "2 ^ 54 * minNormal \<le> 100"
    using minNormal_small(1) by linarith
  have b: "2 * (100 :: real) \<le> overflowThreshold"
    using overflowThreshold_large by simp
  show ?thesis
    unfolding n
    using SpeedUp_undoes_SlowDown [of 100 "1 / 4"
        "\<lparr>Limiter = Some \<lparr>limit = 100, burst = 1\<rparr>, changePercent = 1 / 4\<rparr>"
        "\<lparr>limit = 100, burst = 1\<rparr>"] a b
    by (simp add: Limit_def)
qed

text \<open>
  C2 as it is stated also bounds the error over floats by \<open>1e-9\<close> for every rate. In
  \<^verbatim>\<open>float64\<close> both operations round. At the rate \<open>1e9\<close> with the change percentage
  \<^verbatim>\<open>0.3\<close>, \<^verbatim>\<open>SlowDown\<close> gives exactly \<open>7e8\<close> and \<^verbatim>\<open>SpeedUp\<close> gives \<open>1e9 + 2 ^ -23\<close>, one
  unit in the last place above \<open>1e9\<close> and more than \<open>1e-7\<close> away from it.
\<close>

theorem float64_round_trip_counterexample:
  "Limit (SpeedUp float64 (SlowDown float64
      (NewRateLimiter float64 1000000000 [RateLimitChangePercent (float64 (3 / 10))])))
     = 1000000000 + 1 / 2 ^ 23
   \<and> 1 / 10 ^ 9 < \<bar>Limit (SpeedUp float64 (SlowDown float64
      (NewRateLimiter float64 1000000000 [RateLimitChangePercent (float64 (3 / 10))])))
     - 1000000000\<bar>"
proof -
  have "NewRateLimiter float64 1000000000 [RateLimitChangePercent (float64 (3 / 10))]
      = Some \<lparr>Limiter = Some \<lparr>limit = 1000000000, burst = 1\<rparr>,
          changePercent = 5404319552844595 / 2 ^ 54\<rparr>"
    unfolding float64_3_10 [symmetric]
    by (simp add: NewRateLimiter_def RateLimitChangePercent_def rate_NewLimiter_def DefaultBurst_def)
  then have "Limit (SpeedUp float64 (SlowDown float64
      (NewRateLimiter float64 1000000000 [RateLimitChangePercent (float64 (3 / 10))])))
     = 1000000000 + 1 / 2 ^ 23"
    by (simp only: round_trip_value rate_Limiter.simps float64_7_10 float64_slowed
        float64_restored)
  then show ?thesis
    by simp
qed




section \<open>Header maps\<close>

lemma canonical_HeaderReqID: "CanonicalMIMEHeaderKey HeaderReqID = ''X-Request-Id''"
  by code_simp

lemma entry_Header_Add:
  "entry (Header_Add hm key v) k =
     (if k = CanonicalMIMEHeaderKey key then entry hm k @ [v] else entry hm k)"
  by (simp add: entry_def Header_Add_def Let_def update_conv')

lemma entry_foldl_Header_Add:
  "entry (foldl (\<lambda>hm v. Header_Add hm key v) hm vals) k =
     (if k = CanonicalMIMEHeaderKey key then entry hm k @ vals else entry hm k)"
  by (induction vals arbitrary: hm) (simp_all add: entry_Header_Add)

lemma entry_Nil: "entry [] k = []"
  by (simp add: entry_def)

subsection \<open>Canonical keys\<close>

text \<open>
  Canonical form is idempotent, so \<^verbatim>\<open>Add\<close> keeps the keys of a map canonical, and so
  does \<^verbatim>\<open>AddHeader\<close>: every map behind a \<^verbatim>\<open>ReqHeaders\<close> that started nil or empty has
  canonical keys. Ranging over such a map, \<^verbatim>\<open>reqWithHeaders\<close> appends under each key
  the values the map holds under it.
\<close>

lemma canonicalKeys_Nil: "canonicalKeys []"
  by (simp add: canonicalKeys_def)

lemma of_char_char_of: "m < 256 \<Longrightarrow> of_char (char_of m) = (m::nat)"
  by (simp add: of_char_of)

lemma canonByte_cases:
  obtains (up) "u" "97 \<le> (of_char c :: nat)" "(of_char c :: nat) \<le> 122"
      "canonByte u c = char_of (of_char c - 32 :: nat)"
    | (low) "\<not> u" "65 \<le> (of_char c :: nat)" "(of_char c :: nat) \<le> 90"
      "canonByte u c = char_of (of_char c + 32 :: nat)"
    | (same) "canonByte u c = c"
  unfolding canonByte_def Let_def by (cases u) (simp_all, (meson not_le)+)

lemma canonByte_idem: "canonByte u (canonByte u c) = canonByte u c"
proof (cases u c rule: canonByte_cases)
  case up
  have "(of_char (char_of (of_char c - 32 :: nat)) :: nat) = of_char c - 32"
    using up(3) by (intro of_char_char_of) simp
  moreover have "\<not> 97 \<le> (of_char c - 32 :: nat)"
    using up(3) by arith
  ultimately show ?thesis
    using up(1,4) by (simp add: canonByte_def Let_def)
next
  case low
  have "(of_char (char_of (of_char c + 32 :: nat)) :: nat) = of_char c + 32"
    using low(3) by (intro of_char_char_of) simp
  moreover have "\<not> (of_char c + 32 :: nat) \<le> 90"
    using low(2) by arith
  ultimately show ?thesis
    using low(1,4) by (simp add: canonByte_def Let_def)
next
  case same
  then show ?thesis by simp
qed

lemma canonByte_valid:
  assumes "validHeaderFieldByte c"
  shows "validHeaderFieldByte (canonByte u c)"
proof (cases u c rule: canonByte_cases)
  case up
  have "(of_char (char_of (of_char c - 32 :: nat)) :: nat) = of_char c - 32"
    using up(3) by (intro of_char_char_of) simp
  moreover have "65 \<le> (of_char c - 32 :: nat)" "(of_char c - 32 :: nat) \<le> 90"
    using up(2,3) by arith+
  ultimately show ?thesis
    using up(4) by (simp add: validHeaderFieldByte_def Let_def)
next
  case low
  have "(of_char (char_of (of_char c + 32 :: nat)) :: nat) = of_char c + 32"
    using low(3) by (intro of_char_char_of) simp
  moreover have "97 \<le> (of_char c + 32 :: nat)" "(of_char c + 32 :: nat) \<le> 122"
    using low(2,3) by arith+
  ultimately show ?thesis
    using low(4) by (simp add: validHeaderFieldByte_def Let_def)
next
  case same
  with assms show ?thesis by simp
qed

lemma canonBytes_idem: "canonBytes u (canonBytes u s) = canonBytes u s"
  by (induction s arbitrary: u) (simp_all add: canonByte_idem)

lemma canonBytes_valid:
  "list_all validHeaderFieldByte s \<Longrightarrow> list_all validHeaderFieldByte (canonBytes u s)"
  by (induction s arbitrary: u) (simp_all add: canonByte_valid)

lemma CanonicalMIMEHeaderKey_idem:
  "CanonicalMIMEHeaderKey (CanonicalMIMEHeaderKey s) = CanonicalMIMEHeaderKey s"
  by (simp add: CanonicalMIMEHeaderKey_def canonBytes_idem canonBytes_valid)

lemma canonicalKeys_Header_Add:
  assumes "canonicalKeys hm"
  shows "canonicalKeys (Header_Add hm key v)"
proof -
  let ?k = "CanonicalMIMEHeaderKey key"
  let ?u = "AList.update ?k (entry hm ?k @ [v]) hm"
  have "distinct (map fst ?u)"
    using assms by (simp add: canonicalKeys_def distinct_update)
  moreover have "fst ` set ?u = {?k} \<union> fst ` set hm"
    by (rule dom_update)
  then have "list_all (\<lambda>k. CanonicalMIMEHeaderKey k = k) (map fst ?u)"
    using assms CanonicalMIMEHeaderKey_idem [of key]
    by (auto simp: canonicalKeys_def list_all_iff)
  ultimately show ?thesis
    by (simp add: canonicalKeys_def Header_Add_def Let_def)
qed

lemma canonicalKeys_foldl_Header_Add:
  "canonicalKeys hm \<Longrightarrow> canonicalKeys (foldl (\<lambda>m v. Header_Add m key v) hm vals)"
  by (induction vals arbitrary: hm) (simp_all add: canonicalKeys_Header_Add)

lemma AddHeader_canonicalKeys:
  assumes "AddHeader key vals r hp = (r', hp')" "canonicalKeys (headerAt hp (h r))"
  shows "canonicalKeys (headerAt hp' (h r'))"
proof (cases "h r")
  case None
  with assms(1) [symmetric] show ?thesis
    by (simp add: AddHeader_def Let_def headerAt_def canonicalKeys_foldl_Header_Add canonicalKeys_Nil)
next
  case (Some a)
  with assms(1) [symmetric] assms(2) show ?thesis
    by (simp add: AddHeader_def Let_def headerAt_def canonicalKeys_foldl_Header_Add)
qed

lemma entry_absent: "k \<notin> fst ` set hm \<Longrightarrow> entry hm k = []"
  by (simp add: entry_def map_of_eq_None_iff [THEN iffD2])

lemma addHeaders_Cons:
  "addHeaders hdr ((k, vals) # m) = addHeaders (foldl (\<lambda>hm v. Header_Add hm k v) hdr vals) m"
  by (simp add: addHeaders_def)

lemma entry_addHeaders:
  assumes "canonicalKeys m"
  shows "entry (addHeaders hdr m) kk = entry hdr kk @ entry m kk"
  using assms
proof (induction m arbitrary: hdr)
  case Nil
  then show ?case by (simp add: addHeaders_def entry_Nil)
next
  case (Cons e m)
  obtain k vals where e: "e = (k, vals)" by (cases e)
  from Cons.prems e have ck: "CanonicalMIMEHeaderKey k = k" and nk: "k \<notin> fst ` set m"
    and cm: "canonicalKeys m"
    by (simp_all add: canonicalKeys_def)
  have "entry (addHeaders hdr (e # m)) kk
      = entry (foldl (\<lambda>hm v. Header_Add hm k v) hdr vals) kk @ entry m kk"
    unfolding e addHeaders_Cons by (rule Cons.IH [OF cm])
  also have "\<dots> = entry hdr kk @ entry (e # m) kk"
    using ck nk e by (simp add: entry_foldl_Header_Add entry_absent) (simp add: entry_def)
  finally show ?case .
qed

subsection \<open>Header()\<close>

lemma Header_step:
  assumes "ReqID r \<noteq> []" "ReqHeaders_Header r hp = (ref, r', hp')"
  shows "ref = h r' \<and> ReqID r' = ReqID r \<and>
    Header_Values (headerAt hp' (h r')) HeaderReqID
       = Header_Values (headerAt hp (h r)) HeaderReqID @ [ReqID r]"
proof (cases "h r")
  case None
  have "r' = r\<lparr>h := Some (nextRef hp)\<rparr>"
    and "hp' = hp\<lparr>cells := (cells hp)(nextRef hp := Header_Add [] HeaderReqID (ReqID r)),
           nextRef := Suc (nextRef hp)\<rparr>"
    and "ref = Some (nextRef hp)"
    using assms(1) assms(2) [symmetric] None
    by (simp_all add: ReqHeaders_Header_def AddHeader_def Let_def)
  then show ?thesis
    using None by (simp add: Header_Values_def headerAt_def entry_Header_Add entry_Nil)
next
  case (Some a)
  have "r' = r"
    and "hp' = hp\<lparr>cells := (cells hp)(a := Header_Add (cells hp a) HeaderReqID (ReqID r))\<rparr>"
    and "ref = Some a"
    using assms(1) assms(2) [symmetric] Some
    by (simp_all add: ReqHeaders_Header_def AddHeader_def Let_def)
  then show ?thesis
    using Some by (simp add: Header_Values_def headerAt_def entry_Header_Add)
qed

lemma Header_times_values:
  assumes "ReqID r \<noteq> []" "Header_times n r hp = (ref, r', hp')"
  shows "ref = h r' \<and> ReqID r' = ReqID r \<and>
    Header_Values (headerAt hp' (h r')) HeaderReqID
       = Header_Values (headerAt hp (h r)) HeaderReqID @ replicate n (ReqID r)"
  using assms
proof (induction n arbitrary: r hp)
  case 0
  from "0.prems"(2) [symmetric] show ?case by simp
next
  case (Suc n)
  obtain ref1 r1 hp1 where s: "ReqHeaders_Header r hp = (ref1, r1, hp1)"
    by (cases "ReqHeaders_Header r hp") auto
  have st: "ReqID r1 = ReqID r"
    "Header_Values (headerAt hp1 (h r1)) HeaderReqID
       = Header_Values (headerAt hp (h r)) HeaderReqID @ [ReqID r]"
    using Header_step [OF Suc.prems(1) s] by simp_all
  have t: "Header_times n r1 hp1 = (ref, r', hp')"
    using Suc.prems(2) s by simp
  have ne: "ReqID r1 \<noteq> []"
    using st(1) Suc.prems(1) by simp
  have ih: "ref = h r'" "ReqID r' = ReqID r1"
    "Header_Values (headerAt hp' (h r')) HeaderReqID
       = Header_Values (headerAt hp1 (h r1)) HeaderReqID @ replicate n (ReqID r1)"
    using Suc.IH [OF ne t] by simp_all
  have "Header_Values (headerAt hp' (h r')) HeaderReqID
       = (Header_Values (headerAt hp (h r)) HeaderReqID @ [ReqID r]) @ replicate n (ReqID r)"
    using ih(3) st by simp
  then show ?case
    using ih(1,2) st(1) by (simp add: replicate_append_same)
qed

text \<open>
  C9. \<^verbatim>\<open>ReqHeaders.Header()\<close> is not idempotent when \<^verbatim>\<open>ReqID\<close> is not empty: each call
  appends one more copy of \<^verbatim>\<open>ReqID\<close> under the header \<^verbatim>\<open>X-Request-ID\<close>. After \<open>n\<close>
  calls the map that the last call returned holds, under that header, the values it
  held before followed by \<open>n\<close> copies of \<^verbatim>\<open>ReqID\<close>: exactly \<open>n\<close> copies when it held
  none, or was nil. One more call returns other values than the call before it.
\<close>

theorem Header_appends_ReqID_each_call:
  assumes "ReqID r \<noteq> []"
  shows "(case Header_times n r hp of (ref, r', hp') \<Rightarrow>
            Header_Values (headerAt hp' ref) HeaderReqID)
          = Header_Values (headerAt hp (h r)) HeaderReqID @ replicate n (ReqID r)
    \<and> (case Header_times (Suc n) r hp of (ref, r', hp') \<Rightarrow>
            Header_Values (headerAt hp' ref) HeaderReqID)
        \<noteq> (case Header_times n r hp of (ref, r', hp') \<Rightarrow>
            Header_Values (headerAt hp' ref) HeaderReqID)"
proof -
  have v: "(case Header_times k r hp of (ref, r', hp') \<Rightarrow>
            Header_Values (headerAt hp' ref) HeaderReqID)
          = Header_Values (headerAt hp (h r)) HeaderReqID @ replicate k (ReqID r)" for k
  proof (cases "Header_times k r hp")
    case (fields ref r' hp')
    from Header_times_values [OF assms fields] fields show ?thesis
      by simp
  qed
  have "length (Header_Values (headerAt hp (h r)) HeaderReqID @ replicate (Suc n) (ReqID r))
      \<noteq> length (Header_Values (headerAt hp (h r)) HeaderReqID @ replicate n (ReqID r))"
    by simp
  then have "Header_Values (headerAt hp (h r)) HeaderReqID @ replicate (Suc n) (ReqID r)
      \<noteq> Header_Values (headerAt hp (h r)) HeaderReqID @ replicate n (ReqID r)"
    by metis
  then show ?thesis
    unfolding v [of n] v [of "Suc n"] by simp
qed

theorem Header_appends_ReqID_each_call_witness:
  "ReqID \<lparr>ReqID = ''abc'', h = None\<rparr> \<noteq> []
   \<and> (case Header_times 3 \<lparr>ReqID = ''abc'', h = None\<rparr> \<lparr>cells = \<lambda>a. [], nextRef = 0\<rparr>
        of (ref, r', hp') \<Rightarrow> Header_Values (headerAt hp' ref) HeaderReqID)
       = [''abc'', ''abc'', ''abc'']
   \<and> (case Header_times 2
          \<lparr>ReqID = ''abc'', h = Some 0\<rparr>
          \<lparr>cells = \<lambda>a. [(''X-Foo'', [''foo'']), (''X-Request-Id'', [''abc''])], nextRef = 1\<rparr>
        of (ref, r', hp') \<Rightarrow> Header_Values (headerAt hp' ref) HeaderReqID)
       = [''abc'', ''abc'', ''abc'']"
proof -
  have a: "ReqID \<lparr>ReqID = ''abc'', h = None\<rparr> \<noteq> []"
    by simp
  have b: "ReqID \<lparr>ReqID = ''abc'', h = Some 0\<rparr> \<noteq> []"
    by simp
  show ?thesis
    using a
      Header_appends_ReqID_each_call [OF a, of 3 "\<lparr>cells = \<lambda>a. [], nextRef = 0\<rparr>"]
      Header_appends_ReqID_each_call [OF b, of 2
        "\<lparr>cells = \<lambda>a. [(''X-Foo'', [''foo'']), (''X-Request-Id'', [''abc''])], nextRef = 1\<rparr>"]
    by (simp add: headerAt_def Header_Values_def entry_def canonical_HeaderReqID
        numeral_3_eq_3 numeral_2_eq_2)
qed

section \<open>The dispatcher\<close>

declare retry.simps [simp del]

lemma sent_append: "sent (es @ fs) = sent es @ sent fs"
  by (induction es rule: sent.induct) simp_all

lemma ReqHeaders_Header_effect:
  fixes c :: Client and w :: world
  assumes hd: "ReqHeaders_Header c w = (ref, c', w1)"
    and ck: "canonicalKeys (headerAt w (h c))"
    and kk: "ReqID c = [] \<or> kk \<noteq> CanonicalMIMEHeaderKey HeaderReqID"
  shows "canonicalKeys (headerAt w1 ref) \<and>
    entry (headerAt w1 ref) kk = entry (headerAt w (h c)) kk \<and>
    canonicalKeys (headerAt w1 (h c)) \<and>
    entry (headerAt w1 (h c)) kk = entry (headerAt w (h c)) kk \<and>
    req w1 = req w \<and> rateLimiter w1 = rateLimiter w \<and> clock w1 = clock w \<and>
    trace w1 = trace w"
proof (cases "ReqID c = []")
  case True
  then have "ref = h c" "w1 = w"
    using hd [symmetric] by (simp_all add: ReqHeaders_Header_def)
  then show ?thesis
    using ck by simp
next
  case False
  then have k: "kk \<noteq> CanonicalMIMEHeaderKey HeaderReqID"
    using kk by simp
  show ?thesis
  proof (cases "h c")
    case None
    have "ref = Some (nextRef w)"
      and "w1 = w\<lparr>cells := (cells w)(nextRef w := Header_Add [] HeaderReqID (ReqID c)),
             nextRef := Suc (nextRef w)\<rparr>"
      using hd [symmetric] False None
      by (simp_all add: ReqHeaders_Header_def AddHeader_def Let_def)
    then show ?thesis
      using None k canonicalKeys_Header_Add [OF canonicalKeys_Nil, of HeaderReqID "ReqID c"]
      by (simp add: headerAt_def entry_Header_Add canonicalKeys_Nil)
  next
    case (Some a)
    have "ref = Some a"
      and "w1 = w\<lparr>cells := (cells w)(a := Header_Add (cells w a) HeaderReqID (ReqID c))\<rparr>"
      using hd [symmetric] False Some
      by (simp_all add: ReqHeaders_Header_def AddHeader_def Let_def)
    then show ?thesis
      using Some k ck canonicalKeys_Header_Add [of "cells w a" HeaderReqID "ReqID c"]
      by (simp add: headerAt_def entry_Header_Add)
  qed
qed

lemma headerAt_cells: "cells hp' = cells hp \<Longrightarrow> headerAt hp' ref = headerAt hp ref"
  by (cases ref) (simp_all add: headerAt_def)

lemma Client_do_adds:
  assumes d: "Client_do c ev w = Inr (out, w')"
    and ck: "canonicalKeys (headerAt w (h c))"
    and kk: "ReqID c = [] \<or> kk \<noteq> CanonicalMIMEHeaderKey HeaderReqID"
  shows "attempts_add c kk w w'"
proof (cases "Wait (limWait ev (clock w)) (Ctx (req w)) (rateLimiter w)")
  case (Some err)
  then have "w' = w\<lparr>clock := Suc (clock w)\<rparr>"
    using d [symmetric] by (simp add: Client_do_def)
  then have "cells w' = cells w" "req w' = req w" "trace w' = trace w"
    by simp_all
  then show ?thesis
    using ck headerAt_cells [of w' w "h c"] by (simp add: attempts_add_def transportCalls_def)
next
  case None
  obtain ref c' w1 where hd: "ReqHeaders_Header c w = (ref, c', w1)"
    by (cases "ReqHeaders_Header c w") auto
  note eff = ReqHeaders_Header_effect [OF hd ck kk]
  define rq where "rq = reqWithHeaders (req w1) [headerAt w1 ref]"
  have rqh: "entry (Header rq) kk = entry (Header (req w)) kk @ entry (headerAt w (h c)) kk"
    and rqf: "rq\<lparr>Header := Header (req w)\<rparr> = req w"
    using eff by (simp_all add: rq_def reqWithHeaders_def entry_addHeaders)
  have w': "req w' = rq \<and> cells w' = cells w1 \<and> sent (trace w') = sent (trace w1) @ [rq]"
    using d [symmetric] None hd
    by (auto simp: Client_do_def Let_def rq_def sent_append split: sum.splits prod.splits if_splits)
  then have calls: "transportCalls w' = Suc (transportCalls w)"
    and rq': "req w' = rq" and cells': "cells w' = cells w1"
    using eff by (simp_all add: transportCalls_def)
  show ?thesis
    using calls rq' rqh rqf eff headerAt_cells [OF cells', of "h c"]
    by (simp add: attempts_add_def)
qed

lemma attempts_add_refl:
  "canonicalKeys (headerAt w (h c)) \<Longrightarrow> attempts_add c kk w w"
  by (simp add: attempts_add_def)

lemma attempts_add_trans:
  assumes "attempts_add c kk w w1" "attempts_add c kk w1 w2"
  shows "attempts_add c kk w w2"
proof -
  let ?s = "entry (headerAt w (h c)) kk"
  have le: "transportCalls w \<le> transportCalls w1" "transportCalls w1 \<le> transportCalls w2"
    using assms by (simp_all add: attempts_add_def)
  then have n: "transportCalls w2 - transportCalls w
      = (transportCalls w1 - transportCalls w) + (transportCalls w2 - transportCalls w1)"
    by simp
  have s1: "entry (headerAt w1 (h c)) kk = ?s"
    using assms(1) by (simp add: attempts_add_def)
  have h1: "entry (Header (req w1)) kk
      = entry (Header (req w)) kk @ concat (replicate (transportCalls w1 - transportCalls w) ?s)"
    using assms(1) by (simp add: attempts_add_def)
  have h2: "entry (Header (req w2)) kk
      = entry (Header (req w1)) kk @ concat (replicate (transportCalls w2 - transportCalls w1) ?s)"
    using assms(2) s1 by (simp add: attempts_add_def)
  have f1: "(req w1)\<lparr>Header := Header (req w)\<rparr> = req w"
    using assms(1) by (simp add: attempts_add_def)
  have f2: "(req w2)\<lparr>Header := Header (req w1)\<rparr> = req w1"
    using assms(2) by (simp add: attempts_add_def)
  have "(req w2)\<lparr>Header := Header (req w)\<rparr>
      = ((req w2)\<lparr>Header := Header (req w1)\<rparr>)\<lparr>Header := Header (req w)\<rparr>"
    by simp
  then have f: "(req w2)\<lparr>Header := Header (req w)\<rparr> = req w"
    unfolding f2 f1 .
  have cc: "concat (replicate (transportCalls w2 - transportCalls w) ?s)
      = concat (replicate (transportCalls w1 - transportCalls w) ?s)
        @ concat (replicate (transportCalls w2 - transportCalls w1) ?s)"
    by (simp only: n replicate_add concat_append)
  have "entry (Header (req w2)) kk
      = entry (Header (req w)) kk @ concat (replicate (transportCalls w2 - transportCalls w) ?s)"
    unfolding cc h2 h1 by simp
  moreover have "canonicalKeys (headerAt w2 (h c))" "entry (headerAt w2 (h c)) kk = ?s"
    using assms(2) s1 by (simp_all add: attempts_add_def)
  ultimately show ?thesis
    using le f by (simp add: attempts_add_def)
qed

lemma retry_adds:
  assumes "retry c ev tries out w = Inr (out', w')"
    and "canonicalKeys (headerAt w (h c))"
    and "ReqID c = [] \<or> kk \<noteq> CanonicalMIMEHeaderKey HeaderReqID"
  shows "attempts_add c kk w w'"
  using assms
proof (induction c ev tries out w rule: retry.induct)
  case (1 c ev tries out w)
  show ?case
  proof (cases "is429 (fst out) \<and> tries < RetriesOn429 c")
    case False
    with "1.prems"(1) [symmetric] have "w' = w"
      by (simp add: retry.simps)
    with "1.prems"(2) show ?thesis
      by (simp add: attempts_add_refl)
  next
    case True
    show ?thesis
    proof (cases "Client_do c ev w")
      case (Inl p)
      with True "1.prems"(1) show ?thesis
        by (simp add: retry.simps)
    next
      case (Inr ow)
      obtain out1 w1 where ow: "ow = (out1, w1)" by (cases ow)
      have step: "attempts_add c kk w w1"
        using Client_do_adds [OF Inr [unfolded ow] "1.prems"(2,3)] .
      have r: "retry c ev (tries + 1) out1 w1 = Inr (out', w')"
        using "1.prems"(1) True Inr ow by (simp add: retry.simps)
      have ck1: "canonicalKeys (headerAt w1 (h c))"
        using step by (simp add: attempts_add_def)
      have "attempts_add c kk w1 w'"
        using "1.IH" [OF True Inr ow [symmetric] r ck1 "1.prems"(3)] .
      with step show ?thesis
        by (rule attempts_add_trans)
    qed
  qed
qed

lemma Client_Do_adds:
  assumes "Client_Do c ev w = Inr (out, w')"
    and "canonicalKeys (headerAt w (h c))"
    and "ReqID c = [] \<or> kk \<noteq> CanonicalMIMEHeaderKey HeaderReqID"
  shows "attempts_add c kk w w'"
proof (cases "Client_do c ev w")
  case (Inl p)
  with assms(1) show ?thesis
    by (simp add: Client_Do_def)
next
  case (Inr ow)
  obtain out1 w1 where ow: "ow = (out1, w1)" by (cases ow)
  have step: "attempts_add c kk w w1"
    using Client_do_adds [OF Inr [unfolded ow] assms(2,3)] .
  have r: "retry c ev 0 out1 w1 = Inr (out, w')"
    using assms(1) Inr ow by (simp add: Client_Do_def)
  have ck1: "canonicalKeys (headerAt w1 (h c))"
    using step by (simp add: attempts_add_def)
  from step retry_adds [OF r ck1 assms(3)] show ?thesis
    by (rule attempts_add_trans)
qed



lemmas dispatch_eval = summary_def Client_Do_def Client_do_def testClient_def testEnv_def newWorld_def
      getRoot_def tooManyRequests_def statusOK_def internalServerError_def NewRateLimiter_def Wait_def
      ReqHeaders_Header_def AddHeader_def reqWithHeaders_def headerAt_def addHeaders_def
      httpClient_def logRqRs_def is429_def StatusTooManyRequests_def SlowDown_def SetLimit_def
      Limit_def exact_def rate_NewLimiter_def DefaultBurst_def DefaultCPSChangePercent_def
      transportCalls_def Let_def retry.simps

lemma canonical_examples:
  "CanonicalMIMEHeaderKey ''X-Foo'' = ''X-Foo''"
  "CanonicalMIMEHeaderKey ''x-foo'' = ''X-Foo''"
  "CanonicalMIMEHeaderKey ''X-Request-Id'' = ''X-Request-Id''"
  by code_simp+







text \<open>
  C4. After each call of the transport \<^verbatim>\<open>logRqRs\<close> logs method, path, headers and query
  of the request with the status line and headers of the response, or with the error.
  The level is \<^verbatim>\<open>Error\<close> for an error of the transport only: a response of status 500,
  for which the claim (and the README) name the error level, is logged as a warning,
  as every status from 400 on is.
\<close>

theorem status_500_logged_as_warning:
  "logRqRs getRoot (Some internalServerError) None
     = Inr (Warn, ''[RQ/RS] GET / 500 Internal Server Error'',
         ReqRes \<lparr>f_method = ''GET'', f_path = ''/'', f_header = [], f_query = []\<rparr>
           ''500 Internal Server Error'' [])
   \<and> summary (Client_Do (testClient 2) (testEnv (\<lambda>i rq. (Some internalServerError, None)))
        (newWorld (NewRateLimiter exact 100 []) getRoot))
     = Inr ((Some internalServerError, None), 1, 100, [], [Warn])"
  by (simp add: dispatch_eval)

text \<open>
  C10, amended. Each attempt appends the client's stored headers to the request that the
  caller passed, and the retries work on that same request. After \<open>k\<close> retries, that is
  \<open>k + 1\<close> calls of the transport, the request holds under a header name the values
  it held before, followed by \<open>k + 1\<close> copies of the values the client's map holds
  under that name. This is so for every name when the client's \<^verbatim>\<open>ReqID\<close> is empty,
  and for every name but \<^verbatim>\<open>X-Request-ID\<close> when it is not. The request differs from
  what it was in its header map only.
\<close>

theorem stored_headers_added_each_attempt:
  assumes d: "Client_Do c ev w = Inr (out, w')"
    and n: "transportCalls w' = transportCalls w + k + 1"
    and ck: "canonicalKeys (headerAt w (h c))"
    and key: "ReqID c = [] \<or> CanonicalMIMEHeaderKey key \<noteq> CanonicalMIMEHeaderKey HeaderReqID"
  shows "Header_Values (Header (req w')) key
      = Header_Values (Header (req w)) key
        @ concat (replicate (k + 1) (Header_Values (headerAt w (h c)) key))
    \<and> (req w')\<lparr>Header := Header (req w)\<rparr> = req w"
proof -
  have "attempts_add c (CanonicalMIMEHeaderKey key) w w'"
    using d ck key by (rule Client_Do_adds)
  moreover have "transportCalls w' - transportCalls w = k + 1"
    using n by simp
  ultimately show ?thesis
    by (simp add: attempts_add_def Header_Values_def)
qed

theorem stored_headers_added_each_attempt_witness:
  "\<exists>out w'.
      Client_Do ((testClient 2)\<lparr>ReqID := ''id-1'', h := Some 0\<rparr>)
        (testEnv (\<lambda>i rq. (Some tooManyRequests, None)))
        ((newWorld (NewRateLimiter exact 100 []) (getRoot\<lparr>Header := [(''X-Foo'', [''bar''])]\<rparr>))
           \<lparr>cells := \<lambda>a. [(''X-Foo'', [''foo''])], nextRef := 1\<rparr>)
        = Inr (out, w')
      \<and> transportCalls w' = 3
      \<and> Header_Values (Header (req w')) ''x-foo'' = [''bar'', ''foo'', ''foo'', ''foo'']
      \<and> (req w')\<lparr>Header := [(''X-Foo'', [''bar''])]\<rparr> = getRoot\<lparr>Header := [(''X-Foo'', [''bar''])]\<rparr>"
proof -
  let ?c = "(testClient 2)\<lparr>ReqID := ''id-1'', h := Some 0\<rparr>"
  let ?ev = "testEnv (\<lambda>i rq. (Some tooManyRequests, None))"
  let ?w = "(newWorld (NewRateLimiter exact 100 []) (getRoot\<lparr>Header := [(''X-Foo'', [''bar''])]\<rparr>))
           \<lparr>cells := \<lambda>a. [(''X-Foo'', [''foo''])], nextRef := 1\<rparr>"
  have s: "summary (Client_Do ?c ?ev ?w)
      = Inr ((Some tooManyRequests, None), 3, 729 / 10,
          [(''X-Foo'', [''bar'', ''foo'', ''foo'', ''foo'']),
           (''X-Request-Id'', [''id-1'', ''id-1'', ''id-1'', ''id-1'', ''id-1'', ''id-1''])],
          [Warn, Warn, Warn])"
    by (simp add: dispatch_eval Header_Add_def entry_def canonical_HeaderReqID canonical_examples)
  then obtain out w' where d: "Client_Do ?c ?ev ?w = Inr (out, w')"
    and n: "transportCalls w' = 3"
    by (cases "Client_Do ?c ?ev ?w") (auto simp: summary_def)
  have n': "transportCalls w' = transportCalls ?w + 2 + 1"
    using n by (simp add: transportCalls_def newWorld_def)
  have ck: "canonicalKeys (headerAt ?w (h ?c))"
    by (simp add: canonicalKeys_def headerAt_def canonical_examples)
  have key: "ReqID ?c = [] \<or> CanonicalMIMEHeaderKey ''x-foo'' \<noteq> CanonicalMIMEHeaderKey HeaderReqID"
    by (simp add: canonical_HeaderReqID canonical_examples)
  have v: "Header_Values (Header (req ?w)) ''x-foo'' = [''bar'']"
    "Header_Values (headerAt ?w (h ?c)) ''x-foo'' = [''foo'']"
    "req ?w = getRoot\<lparr>Header := [(''X-Foo'', [''bar''])]\<rparr>"
    by (simp_all add: newWorld_def headerAt_def Header_Values_def entry_def canonical_examples)
  show ?thesis
    using stored_headers_added_each_attempt [OF d n' ck key] d n v
    by (simp add: numeral_2_eq_2)
qed

text \<open>
  C10 as it is stated covers every stored value. When the client's \<^verbatim>\<open>ReqID\<close> is not
  empty, each attempt calls \<^verbatim>\<open>Header()\<close>, which first appends \<^verbatim>\<open>ReqID\<close> to the map the
  client shares with its copies (C9). A value stored under \<^verbatim>\<open>X-Request-ID\<close> then
  reaches the request more often than once for each attempt: here, with no retry at
  all, the one stored value is on the request twice.
\<close>

theorem request_id_counterexample:
  "summary (Client_Do ((testClient 0)\<lparr>ReqID := ''id-1'', h := Some 0\<rparr>)
        (testEnv (\<lambda>i rq. (Some statusOK, None)))
        ((newWorld (NewRateLimiter exact 100 []) getRoot)
           \<lparr>cells := \<lambda>a. [(''X-Request-Id'', [''id-1''])], nextRef := 1\<rparr>))
     = Inr ((Some statusOK, None), 1, 100, [(''X-Request-Id'', [''id-1'', ''id-1''])], [Info])
   \<and> Header_Values
         (headerAt ((newWorld (NewRateLimiter exact 100 []) getRoot)
            \<lparr>cells := \<lambda>a. [(''X-Request-Id'', [''id-1''])], nextRef := 1\<rparr>)
           (h ((testClient 0)\<lparr>ReqID := ''id-1'', h := Some 0\<rparr>)))
         HeaderReqID = [''id-1'']"
  by (simp add: dispatch_eval Header_Add_def Header_Values_def entry_def canonical_HeaderReqID
      canonical_examples)

end